theory Spec2Isabelle
  imports Complex_Main "HOL-Library.Multiset" "HOL-Library.Char_ord"
    "HOL-Library.List_Lexorder" "HOL-Library.Product_Lexorder"
begin

section \<open>The Overdr1ve racing environment\<close>

text \<open>
  A shallow embedding of \<^verbatim>\<open>src/data_experiment/overdr1ve_env.py\<close>.

  Conventions of the model:
  \<^item> Python \<^verbatim>\<open>int\<close> is \<^typ>\<open>int\<close>; Python and numpy floats are \<^typ>\<open>real\<close>
    (rounding and infinities are not modelled, the failure of converting an integer
    beyond the float range is); a numpy array of integers holds 64-bit values, so
    adding to it wraps around, and a Python integer outside the 64-bit range cannot be
    added to it; a float that is NaN (the mean of an empty column) is \<open>None\<close> in a
    \<^typ>\<open>real option\<close>.
  \<^item> Python \<^verbatim>\<open>str\<close> is \<^typ>\<open>string\<close>; a \<^typ>\<open>char\<close> stands for a code point below
    256.
  \<^item> The object \<^verbatim>\<open>self\<close> is the record \<open>env\<close>; a method takes it and returns the
    outcome (an error or a value) together with the object as the call left it.
  \<^item> Draws of the random generator are arguments: the perturbation array of
    \<^verbatim>\<open>_rank_and_points\<close> is a function from grid index to its draw, the shuffled
    table of \<^verbatim>\<open>reset\<close> is a list of tracks.
  \<^item> The tables are taken as the validators return them (typed columns, a condition
    set per upgrade row).
\<close>

subsection \<open>Python primitives\<close>

datatype error =
    InvalidAction         \<comment> \<open>\<^verbatim>\<open>ValueError("Invalid action ...")\<close> of \<^verbatim>\<open>step\<close>\<close>
  | AgentIdOutOfRange     \<comment> \<open>\<^verbatim>\<open>ValueError("agent_car_id ... out of range")\<close> of \<^verbatim>\<open>__init__\<close>\<close>
  | TrackIdxOutOfBounds   \<comment> \<open>\<^verbatim>\<open>RuntimeError("track_idx ... out of bounds")\<close> of \<^verbatim>\<open>_track_row\<close>\<close>
  | IndexError            \<comment> \<open>a sequence read out of range\<close>
  | NotInList             \<comment> \<open>\<^verbatim>\<open>ValueError\<close> of \<^verbatim>\<open>list.index\<close>\<close>
  | OverflowError         \<comment> \<open>a Python integer too large for a float or for a 64-bit array\<close>

definition py_index :: "'a list \<Rightarrow> int \<Rightarrow> error + 'a" where
  \<comment> \<open>\<^verbatim>\<open>xs[i]\<close> on a list; an index from \<open>-len\<close> to \<open>-1\<close> is read from the end\<close>
  "py_index xs i =
     (if 0 \<le> i \<and> i < int (length xs) then Inr (xs ! nat i)
      else if - int (length xs) \<le> i \<and> i < 0 then Inr (xs ! nat (int (length xs) + i))
      else Inl IndexError)"

fun index_of :: "'a list \<Rightarrow> 'a \<Rightarrow> nat option" where
  \<comment> \<open>\<^verbatim>\<open>xs.index(x)\<close>: the first position of \<open>x\<close>, \<open>None\<close> where Python raises.\<close>
  "index_of [] x = None"
| "index_of (y # ys) x = (if y = x then Some 0 else map_option Suc (index_of ys x))"

definition float_of_int :: "int \<Rightarrow> error + real" where
  \<comment> \<open>the conversion in \<^verbatim>\<open>float + int\<close>: integers that round beyond the largest double raise\<close>
  "float_of_int x =
     (if \<bar>x\<bar> < 2 ^ 1024 - 2 ^ 970 then Inr (real_of_int x) else Inl OverflowError)"

definition wrap64 :: "int \<Rightarrow> int" where
  \<comment> \<open>the signed 64-bit value congruent to \<open>x\<close>\<close>
  "wrap64 x = (x + 2 ^ 63) mod 2 ^ 64 - 2 ^ 63"

definition float64_add_scalar :: "real list \<Rightarrow> int \<Rightarrow> error + real list" where
  \<comment> \<open>a float array plus a Python integer\<close>
  "float64_add_scalar xs b =
     (case float_of_int b of Inl err \<Rightarrow> Inl err | Inr r \<Rightarrow> Inr (map (\<lambda>x. x + r) xs))"

definition int64_add_scalar :: "int list \<Rightarrow> int \<Rightarrow> error + int list" where
  \<comment> \<open>a 64-bit integer array plus a Python integer: the integer must fit in 64 bits,
      and each sum wraps\<close>
  "int64_add_scalar xs b =
     (if - (2 ^ 63) \<le> b \<and> b < 2 ^ 63 then Inr (map (\<lambda>x. wrap64 (x + b)) xs)
      else Inl OverflowError)"

definition isspace :: "char \<Rightarrow> bool" where
  "isspace c =
     (let n = (of_char c :: nat)
      in (9 \<le> n \<and> n \<le> 13) \<or> (28 \<le> n \<and> n \<le> 32) \<or> n = 133 \<or> n = 160)"

definition py_strip :: "string \<Rightarrow> string" where
  "py_strip s = rev (dropWhile isspace (rev (dropWhile isspace s)))"

fun split_from :: "string \<Rightarrow> string \<Rightarrow> string list" where
  \<comment> \<open>the first argument is the token being read, last character first\<close>
  "split_from cur [] = (if cur = [] then [] else [rev cur])"
| "split_from cur (c # cs) =
     (if isspace c then (if cur = [] then split_from [] cs else rev cur # split_from [] cs)
      else split_from (c # cur) cs)"

definition py_split :: "string \<Rightarrow> string list" where
  \<comment> \<open>\<^verbatim>\<open>s.split()\<close>: the maximal runs of non-whitespace characters\<close>
  "py_split s = split_from [] s"

definition is_digit :: "char \<Rightarrow> bool" where
  "is_digit c = (let n = (of_char c :: nat) in 48 \<le> n \<and> n \<le> 57)"

definition digit_val :: "char \<Rightarrow> int" where
  "digit_val c = int (of_char c) - 48"

fun parse_digits :: "int \<Rightarrow> string \<Rightarrow> int option" where
  \<comment> \<open>the rest of a decimal literal after a digit: digits, single underscores between them\<close>
  "parse_digits acc [] = Some acc"
| "parse_digits acc [c] = (if is_digit c then Some (acc * 10 + digit_val c) else None)"
| "parse_digits acc (c # d # ds) =
     (if is_digit c then parse_digits (acc * 10 + digit_val c) (d # ds)
      else if c = CHR ''_'' \<and> is_digit d then parse_digits (acc * 10 + digit_val d) ds
      else None)"

definition parse_unsigned :: "string \<Rightarrow> int option" where
  "parse_unsigned s =
     (case s of [] \<Rightarrow> None
      | d # ds \<Rightarrow> if is_digit d then parse_digits (digit_val d) ds else None)"

definition py_int :: "string \<Rightarrow> int option" where
  \<comment> \<open>\<^verbatim>\<open>int(s)\<close> on a string, base 10; \<open>None\<close> where Python raises \<^verbatim>\<open>ValueError\<close>.
      The interpreter's limit on the number of digits is not modelled.\<close>
  "py_int s =
     (case py_strip s of [] \<Rightarrow> None
      | c # cs \<Rightarrow>
          if c = CHR ''-'' then map_option uminus (parse_unsigned cs)
          else if c = CHR ''+'' then parse_unsigned cs
          else parse_unsigned (c # cs))"

subsection \<open>Parsing the type bonus\<close>

datatype cell = Str string | NotStr

definition parse_type_bonus :: "cell \<Rightarrow> int \<times> int" where
  "parse_type_bonus cell =
     (case cell of
        NotStr \<Rightarrow> (0, 0)
      | Str c \<Rightarrow>
          let s = py_strip c in
          if s = [] then (0, 0)
          else
            let parts = py_split s in
            (case (case parts of [] \<Rightarrow> None | p # _ \<Rightarrow> py_int p) of
               None \<Rightarrow> (0, 0)
             | Some val \<Rightarrow>
                 if ''Core'' \<in> set (drop 1 parts) then (val, 0)
                 else if ''Max'' \<in> set (drop 1 parts) then (0, val)
                 else (0, 0)))"

subsection \<open>Tables and the environment object\<close>

record track =
  track_name :: string
  total_laps :: int
  track_type :: string
  type_bonus :: string

record car =
  car_name :: string
  core_power :: real
  max_laps :: int
  car_track_types :: "string set"

record upgrade =
  upgrade_name :: string
  upgrade_core :: real
  upgrade_max :: int
  cond_types :: "string set"

record action =
  act_name :: string
  add_core :: real
  add_max :: int
  cond :: "string set"

record env =
  tracks_df_original :: "track list"
  cars_df :: "car list"
  upgrades_df :: "upgrade list option"
  TRACK_TYPES :: "string list"
  agent_car_id :: int
  agent_car :: car
  opponents_df :: "car list"
  points_by_position :: "int list"
  shuffle_tracks_each_reset :: bool
  actions_catalog :: "action list"
  n_actions :: int
  obs_dim :: nat
  tracks_df :: "track list"
  track_idx :: int
  total_reward :: real

definition DEFAULT_POINTS_BY_POSITION :: "int list" where
  "DEFAULT_POINTS_BY_POSITION = [25, 18, 15, 12, 10, 8, 6, 4, 2, 1]"

definition unique :: "'a list \<Rightarrow> 'a list" where
  \<comment> \<open>\<^verbatim>\<open>Series.unique()\<close>: the values in order of first appearance\<close>
  "unique xs = rev (remdups (rev xs))"

definition build_actions :: "upgrade list option \<Rightarrow> action list" where
  "build_actions upgrades =
     (let actions = [\<lparr>act_name = ''No Upgrade'', add_core = 0, add_max = 0, cond = {}\<rparr>]
      in case upgrades of
           None \<Rightarrow> actions
         | Some rows \<Rightarrow>
             if length rows = 0 then actions
             else actions @
               map (\<lambda>r. \<lparr>act_name = upgrade_name r, add_core = upgrade_core r,
                         add_max = upgrade_max r, cond = cond_types r\<rparr>) rows)"

definition init ::
  "track list \<Rightarrow> car list \<Rightarrow> upgrade list option \<Rightarrow> int \<Rightarrow> int list option \<Rightarrow> bool
     \<Rightarrow> error + env" where
  "init tracks cars upgrades agent_id points shuffle =
     (let types = sort (unique (map track_type tracks)) in
      if \<not> (0 \<le> agent_id \<and> agent_id < int (length cars)) then Inl AgentIdOutOfRange
      else
        let pts = (case points of None \<Rightarrow> DEFAULT_POINTS_BY_POSITION
                   | Some p \<Rightarrow> if p = [] then DEFAULT_POINTS_BY_POSITION else p);
            grid = length cars;
            pts' = (if length pts < grid then pts @ replicate (grid - length pts) 0 else pts);
            catalog = build_actions upgrades
        in Inr \<lparr>tracks_df_original = tracks,
                cars_df = cars,
                upgrades_df = upgrades,
                TRACK_TYPES = types,
                agent_car_id = agent_id,
                agent_car = cars ! nat agent_id,
                opponents_df = take (nat agent_id) cars @ drop (Suc (nat agent_id)) cars,
                points_by_position = pts',
                shuffle_tracks_each_reset = shuffle,
                actions_catalog = catalog,
                n_actions = int (length catalog),
                obs_dim = 2 + length types + 1 + 2,
                tracks_df = tracks,
                track_idx = 0,
                total_reward = 0\<rparr>)"

subsection \<open>Helpers\<close>

definition track_row :: "env \<Rightarrow> error + track" where
  "track_row e =
     (if \<not> (0 \<le> track_idx e \<and> track_idx e < int (length (tracks_df e)))
      then Inl TrackIdxOutOfBounds
      else Inr (tracks_df e ! nat (track_idx e)))"

definition mean :: "real list \<Rightarrow> real option" where
  "mean xs = (if xs = [] then None else Some (sum_list xs / real (length xs)))"

definition get_obs :: "env \<Rightarrow> error + real option list" where
  "get_obs e =
     (case track_row e of
        Inl err \<Rightarrow> Inl err
      | Inr tr \<Rightarrow>
          (case index_of (TRACK_TYPES e) (track_type tr) of
             None \<Rightarrow> Inl NotInList
           | Some k \<Rightarrow>
               let onehot = (replicate (length (TRACK_TYPES e)) (0::real))[k := 1];
                   opp_mean_core = mean (map core_power (opponents_df e));
                   opp_mean_max = mean (map (\<lambda>c. real_of_int (max_laps c)) (opponents_df e))
               in Inr ([Some (core_power (agent_car e)),
                        Some (real_of_int (max_laps (agent_car e)))]
                       @ map Some onehot
                       @ [Some (real_of_int (total_laps tr)), opp_mean_core, opp_mean_max])))"

definition upgrade_applies_on_track :: "env \<Rightarrow> int \<Rightarrow> string \<Rightarrow> error + bool" where
  "upgrade_applies_on_track e action_idx ttype =
     (case py_index (actions_catalog e) action_idx of
        Inl err \<Rightarrow> Inl err
      | Inr a \<Rightarrow> if cond a = {} then Inr True else Inr (ttype \<in> cond a))"

definition effective_stats_for_car ::
  "env \<Rightarrow> real \<Rightarrow> int \<Rightarrow> string \<Rightarrow> int \<Rightarrow> int \<Rightarrow> int \<Rightarrow> error + (real \<times> int \<times> bool)" where
  "effective_stats_for_car e base_core base_max ttype track_bonus_core track_bonus_max
       action_idx =
     (case float_of_int track_bonus_core of
        Inl err \<Rightarrow> Inl err
      | Inr b \<Rightarrow>
          let core = base_core + b;
              max_laps = base_max + track_bonus_max
          in case upgrade_applies_on_track e action_idx ttype of
               Inl err \<Rightarrow> Inl err
             | Inr applies \<Rightarrow>
                 if applies then
                   (case py_index (actions_catalog e) action_idx of
                      Inl err \<Rightarrow> Inl err
                    | Inr a \<Rightarrow> Inr (core + add_core a, max_laps + add_max a, True))
                 else Inr (core, max_laps, True))"

definition rank_order :: "real list \<Rightarrow> bool list \<Rightarrow> (nat \<Rightarrow> real) \<Rightarrow> nat list" where
  \<comment> \<open>\<^verbatim>\<open>sorted\<close> is stable, as \<open>sort_key\<close> is\<close>
  "rank_order grid_core grid_dnf noise =
     sort_key (\<lambda>i. (grid_dnf ! i, - (grid_core ! i + noise i))) [0..<length grid_core]"

definition rank_and_points ::
  "env \<Rightarrow> real list \<Rightarrow> bool list \<Rightarrow> (nat \<Rightarrow> real) \<Rightarrow> nat \<Rightarrow> error + (nat \<times> int)" where
  "rank_and_points e grid_core grid_dnf noise agent_index =
     (if length grid_dnf < length grid_core then Inl IndexError
      else
        case index_of (rank_order grid_core grid_dnf noise) agent_index of
          None \<Rightarrow> Inl NotInList
        | Some k \<Rightarrow>
            let position = k + 1 in
            if \<not> grid_dnf ! agent_index then
              (case py_index (points_by_position e) (int position - 1) of
                 Inl err \<Rightarrow> Inl err
               | Inr points \<Rightarrow> Inr (position, points))
            else Inr (position, 0))"

subsection \<open>The gym interface\<close>

definition reset :: "track list \<Rightarrow> env \<Rightarrow> (error + real option list) \<times> env" where
  \<comment> \<open>\<open>shuffled\<close> is what \<^verbatim>\<open>sample(frac=1.0)\<close> draws; it is read only when shuffling is on\<close>
  "reset shuffled e =
     (let e1 = e\<lparr>tracks_df :=
                  (if shuffle_tracks_each_reset e then shuffled else tracks_df_original e)\<rparr>;
          e2 = e1\<lparr>track_idx := 0\<rparr>;
          e3 = e2\<lparr>total_reward := 0\<rparr>
      in (get_obs e3, e3))"

record stats =
  agent_core :: real
  agent_max :: int
  agent_dnf :: bool
  opp_core_eff :: "real list"
  opp_max_eff :: "int list"
  opp_dnf :: "bool list"

definition effective_stats ::
  "env \<Rightarrow> string \<Rightarrow> int \<Rightarrow> int \<Rightarrow> int \<Rightarrow> int \<Rightarrow> error + stats" where
  \<comment> \<open>the sections "Agent effective stats" and "Opponents effective stats" of \<^verbatim>\<open>step\<close>:
      the agent's values are Python numbers, the opponents' are numpy arrays\<close>
  "effective_stats e ttype req_laps bonus_core bonus_max action =
     (let agent_base_core = core_power (agent_car e);
          agent_base_max = max_laps (agent_car e)
      in case effective_stats_for_car e agent_base_core agent_base_max ttype
                bonus_core bonus_max action of
           Inl err \<Rightarrow> Inl err
         | Inr (a_core, a_max, _) \<Rightarrow>
             let a_dnf = (a_max < req_laps);
                 opp_core = map core_power (opponents_df e);
                 opp_max = map max_laps (opponents_df e)
             in case float64_add_scalar opp_core bonus_core of
                  Inl err \<Rightarrow> Inl err
                | Inr o_core_eff \<Rightarrow>
                    (case int64_add_scalar opp_max bonus_max of
                       Inl err \<Rightarrow> Inl err
                     | Inr o_max_eff \<Rightarrow>
                         let o_dnf = map (\<lambda>m. m < req_laps) o_max_eff
                         in Inr \<lparr>agent_core = a_core, agent_max = a_max, agent_dnf = a_dnf,
                                 opp_core_eff = o_core_eff, opp_max_eff = o_max_eff,
                                 opp_dnf = o_dnf\<rparr>))"

record step_info =
  info_track :: string
  info_track_type :: string
  info_required_laps :: int
  info_type_bonus_core :: int
  info_type_bonus_max :: int
  info_action :: string
  info_agent_effective_core :: real
  info_agent_effective_max :: int
  info_agent_dnf :: bool
  info_position :: nat
  info_points :: int
  info_episode_return :: "real option"

record step_result =
  obs :: "real option list"
  reward :: real
  terminated :: bool
  truncated :: bool
  info :: step_info

definition step :: "int \<Rightarrow> (nat \<Rightarrow> real) \<Rightarrow> env \<Rightarrow> (error + step_result) \<times> env" where
  "step action noise e =
     (if \<not> (0 \<le> action \<and> action < n_actions e) then (Inl InvalidAction, e)
      else
        case track_row e of
          Inl err \<Rightarrow> (Inl err, e)
        | Inr tr \<Rightarrow>
            let ttype = track_type tr;
                req_laps = total_laps tr;
                (bonus_core, bonus_max) = parse_type_bonus (Str (type_bonus tr))
            in case effective_stats e ttype req_laps bonus_core bonus_max action of
                 Inl err \<Rightarrow> (Inl err, e)
               | Inr s \<Rightarrow>
                   let grid_core = opp_core_eff s @ [agent_core s];
                       grid_dnf = opp_dnf s @ [agent_dnf s];
                       agent_grid_idx = length grid_core - 1
                   in case rank_and_points e grid_core grid_dnf noise agent_grid_idx of
                        Inl err \<Rightarrow> (Inl err, e)
                      | Inr (pos, pts) \<Rightarrow>
                          let rew = real_of_int pts;
                              e1 = e\<lparr>total_reward := total_reward e + rew\<rparr>;
                              e2 = e1\<lparr>track_idx := track_idx e1 + 1\<rparr>;
                              term = (track_idx e2 \<ge> int (length (tracks_df e2)))
                          in case (if term then Inr (replicate (obs_dim e2) (Some 0))
                                   else get_obs e2) of
                               Inl err \<Rightarrow> (Inl err, e2)
                             | Inr ob \<Rightarrow>
                                 (case py_index (actions_catalog e2) action of
                                    Inl err \<Rightarrow> (Inl err, e2)
                                  | Inr a \<Rightarrow>
                                      (Inr \<lparr>obs = ob, reward = rew, terminated = term,
                                            truncated = False,
                                            info = \<lparr>info_track = track_name tr,
                                              info_track_type = ttype,
                                              info_required_laps = req_laps,
                                              info_type_bonus_core = bonus_core,
                                              info_type_bonus_max = bonus_max,
                                              info_action = act_name a,
                                              info_agent_effective_core = agent_core s,
                                              info_agent_effective_max = agent_max s,
                                              info_agent_dnf = agent_dnf s,
                                              info_position = pos,
                                              info_points = pts,
                                              info_episode_return =
                                                (if term then Some (total_reward e2)
                                                 else None)\<rparr>\<rparr>,
                                       e2)))"

subsection \<open>Sequences of calls\<close>

datatype call = Reset "track list" | Step int "nat \<Rightarrow> real"

datatype outcome = Failed error | Observed "real option list" | Stepped step_result

fun perform :: "call \<Rightarrow> env \<Rightarrow> outcome \<times> env" where
  "perform (Reset shuffled) e =
     (case reset shuffled e of
        (Inl err, e') \<Rightarrow> (Failed err, e')
      | (Inr ob, e') \<Rightarrow> (Observed ob, e'))"
| "perform (Step action noise) e =
     (case step action noise e of
        (Inl err, e') \<Rightarrow> (Failed err, e')
      | (Inr r, e') \<Rightarrow> (Stepped r, e'))"

fun run :: "call list \<Rightarrow> env \<Rightarrow> outcome list \<times> env" where
  \<comment> \<open>a caller that makes the calls in turn and goes on after a failure\<close>
  "run [] e = ([], e)"
| "run (c # cs) e =
     (let (out, e') = perform c e; (outs, e'') = run cs e' in (out # outs, e''))"

subsection \<open>What no call changes\<close>

definition static ::
  "env \<Rightarrow> track list \<times> car list \<times> string list \<times> car \<times> car list \<times> int list \<times> bool
     \<times> action list \<times> int \<times> nat" where
  \<comment> \<open>the attributes that only \<^verbatim>\<open>__init__\<close> assigns\<close>
  "static e =
     (tracks_df_original e, cars_df e, TRACK_TYPES e, agent_car e, opponents_df e,
      points_by_position e, shuffle_tracks_each_reset e, actions_catalog e, n_actions e,
      obs_dim e)"

subsection \<open>Example tables\<close>

text \<open>The rows quoted in the class's docstring, with a second track.\<close>

definition demo_tracks :: "track list" where
  "demo_tracks =
     [\<lparr>track_name = ''Track 01'', total_laps = 50, track_type = ''Sunny'',
       type_bonus = ''30 Core Power''\<rparr>,
      \<lparr>track_name = ''Track 02'', total_laps = 60, track_type = ''Night'',
       type_bonus = ''20 Max Laps''\<rparr>]"

definition demo_cars :: "car list" where
  "demo_cars =
     [\<lparr>car_name = ''Car 01'', core_power = 300, max_laps = 50,
       car_track_types = {''Sunny''}\<rparr>,
      \<lparr>car_name = ''Car 09'', core_power = 320, max_laps = 50, car_track_types = {}\<rparr>,
      \<lparr>car_name = ''Car 11'', core_power = 300, max_laps = 40,
       car_track_types = {''Sunny'', ''Night''}\<rparr>]"

definition demo_upgrades :: "upgrade list" where
  "demo_upgrades =
     [\<lparr>upgrade_name = ''Upgrade 01'', upgrade_core = 20, upgrade_max = 0, cond_types = {}\<rparr>,
      \<lparr>upgrade_name = ''Upgrade 04'', upgrade_core = 20, upgrade_max = 10,
       cond_types = {''Sunny'', ''Night''}\<rparr>,
      \<lparr>upgrade_name = ''Upgrade 07'', upgrade_core = 40, upgrade_max = 5,
       cond_types = {''Night''}\<rparr>]"

definition demo_env :: env where
  "demo_env = projr (init demo_tracks demo_cars (Some demo_upgrades) 0 None False)"

definition no_noise :: "nat \<Rightarrow> real" where
  "no_noise i = 0"

definition short_table_env :: env where
  \<comment> \<open>three cars and a points table of one entry\<close>
  "short_table_env =
     projr (init demo_tracks demo_cars (Some demo_upgrades) 0 (Some [10]) False)"

definition wrap_tracks :: "track list" where
  \<comment> \<open>one track whose max-laps bonus is the largest 64-bit integer\<close>
  "wrap_tracks =
     [\<lparr>track_name = ''Track 01'', total_laps = 50, track_type = ''Sunny'',
       type_bonus = ''9223372036854775807 Max Laps''\<rparr>]"

definition wrap_env :: env where
  "wrap_env = projr (init wrap_tracks demo_cars (Some demo_upgrades) 0 None False)"

definition overflow_tracks :: "track list" where
  \<comment> \<open>one track whose max-laps bonus is one more than the largest 64-bit integer\<close>
  "overflow_tracks =
     [\<lparr>track_name = ''Track 01'', total_laps = 50, track_type = ''Sunny'',
       type_bonus = ''9223372036854775808 Max Laps''\<rparr>]"

definition overflow_env :: env where
  "overflow_env = projr (init overflow_tracks demo_cars (Some demo_upgrades) 0 None False)"

subsection \<open>The specification's words\<close>

definition type_bonus_grammar :: "string \<Rightarrow> bool" where
  \<comment> \<open>the grammar \<^verbatim>\<open><integer> <"Core"|"Max"> <"Power"|"Laps">\<close> of the specification,
      read on the whitespace-separated tokens of the cell\<close>
  "type_bonus_grammar c =
     (case py_split c of
        [n, k, u] \<Rightarrow>
          py_int n \<noteq> None \<and> (k = ''Core'' \<or> k = ''Max'') \<and> (u = ''Power'' \<or> u = ''Laps'')
      | _ \<Rightarrow> False)"

datatype phase = InProgress | Done

definition phase :: "env \<Rightarrow> phase" where
  \<comment> \<open>the sequencer's states: the cursor is in range, or the sequence is exhausted\<close>
  "phase e =
     (if 0 \<le> track_idx e \<and> track_idx e < int (length (tracks_df e)) then InProgress
      else Done)"

section \<open>Properties\<close>

subsection \<open>Tokens of a cell\<close>

lemma split_from_spaces:
  "\<forall>c \<in> set w. isspace c \<Longrightarrow> split_from cur w = (if cur = [] then [] else [rev cur])"
  by (induction w arbitrary: cur) auto

lemma split_from_append_spaces:
  "\<forall>c \<in> set w. isspace c \<Longrightarrow> split_from cur (t @ w) = split_from cur t"
  by (induction t arbitrary: cur) (auto simp: split_from_spaces)

lemma split_from_dropWhile: "split_from [] (dropWhile isspace s) = split_from [] s"
  by (induction s) auto

lemma split_from_Nil_iff: "split_from cur s = [] \<longleftrightarrow> cur = [] \<and> (\<forall>c \<in> set s. isspace c)"
  by (induction s arbitrary: cur) auto

lemma py_split_strip: "py_split (py_strip s) = py_split s"
proof -
  let ?t = "dropWhile isspace s"
  have "?t = rev (dropWhile isspace (rev ?t)) @ rev (takeWhile isspace (rev ?t))"
    by (metis rev_append rev_rev_ident takeWhile_dropWhile_id)
  moreover have "\<forall>c \<in> set (rev (takeWhile isspace (rev ?t))). isspace c"
    by (auto dest: set_takeWhileD)
  ultimately have "split_from [] ?t = split_from [] (rev (dropWhile isspace (rev ?t)))"
    by (metis split_from_append_spaces)
  then show ?thesis
    by (simp add: py_split_def py_strip_def split_from_dropWhile)
qed

lemma py_strip_Nil_iff: "py_strip s = [] \<longleftrightarrow> py_split s = []"
proof -
  have "py_strip s = [] \<longleftrightarrow> (\<forall>c \<in> set s. isspace c)"
  proof
    assume a: "py_strip s = []"
    show "\<forall>c \<in> set s. isspace c"
    proof (rule ccontr)
      assume "\<not> (\<forall>c \<in> set s. isspace c)"
      then have ne: "dropWhile isspace s \<noteq> []" by (simp add: dropWhile_eq_Nil_conv)
      then have "\<not> isspace (hd (dropWhile isspace s))" by (rule hd_dropWhile)
      moreover from a have "\<forall>c \<in> set (dropWhile isspace s). isspace c"
        by (simp add: py_strip_def dropWhile_eq_Nil_conv)
      ultimately show False using ne by (metis hd_in_set)
    qed
  next
    assume "\<forall>c \<in> set s. isspace c"
    then show "py_strip s = []" by (auto simp: py_strip_def dest: set_dropWhileD)
  qed
  then show ?thesis by (simp add: py_split_def split_from_Nil_iff)
qed

lemma parse_type_bonus_tokens:
  "parse_type_bonus (Str c) =
     (case py_split c of
        [] \<Rightarrow> (0, 0)
      | p # rest \<Rightarrow>
          (case py_int p of
             None \<Rightarrow> (0, 0)
           | Some v \<Rightarrow> if ''Core'' \<in> set rest then (v, 0)
                       else if ''Max'' \<in> set rest then (0, v) else (0, 0)))"
proof (cases "py_split c")
  case Nil
  then show ?thesis
    by (simp add: parse_type_bonus_def py_strip_Nil_iff)
next
  case (Cons p rest)
  then have "py_strip c \<noteq> []" by (simp add: py_strip_Nil_iff)
  with Cons show ?thesis
    by (simp add: parse_type_bonus_def Let_def py_split_strip split: option.splits)
qed

subsection \<open>Ranking\<close>

lemma index_of_SomeD: "index_of xs x = Some k \<Longrightarrow> k < length xs \<and> xs ! k = x"
  by (induction xs arbitrary: k) (auto split: if_splits)

lemma index_of_mem: "x \<in> set xs \<Longrightarrow> \<exists>k. index_of xs x = Some k"
  by (induction xs) auto

lemma index_of_sorted_less:
  assumes "sorted (map f xs)" and "i \<in> set xs" and "j \<in> set xs" and "f i < f j"
  shows "\<exists>a b. index_of xs i = Some a \<and> index_of xs j = Some b \<and> a < b"
proof -
  from assms(2) obtain a where a: "index_of xs i = Some a" using index_of_mem by fastforce
  from assms(3) obtain b where b: "index_of xs j = Some b" using index_of_mem by fastforce
  from a have a': "a < length xs" "xs ! a = i" using index_of_SomeD by fastforce+
  from b have b': "b < length xs" "xs ! b = j" using index_of_SomeD by fastforce+
  have "a < b"
  proof (rule ccontr)
    assume "\<not> a < b"
    then have "b \<le> a" by simp
    with a'(1) have "map f xs ! b \<le> map f xs ! a"
      using sorted_nth_mono [OF assms(1), of b a] by simp
    with a' b' \<open>b \<le> a\<close> have "f j \<le> f i" by simp
    with assms(4) show False by simp
  qed
  with a b show ?thesis by blast
qed

lemma set_rank_order: "set (rank_order grid_core grid_dnf noise) = {0..<length grid_core}"
  by (simp add: rank_order_def)

lemma sorted_rank_order:
  "sorted (map (\<lambda>i. (grid_dnf ! i, - (grid_core ! i + noise i)))
             (rank_order grid_core grid_dnf noise))"
  by (simp add: rank_order_def)

lemma rank_and_points_Inr:
  assumes "length grid_core \<le> length grid_dnf"
    and "length grid_core \<le> length (points_by_position e)"
    and "i < length grid_core"
  shows "\<exists>k. index_of (rank_order grid_core grid_dnf noise) i = Some k \<and> k < length grid_core
           \<and> rank_and_points e grid_core grid_dnf noise i =
               Inr (k + 1, if grid_dnf ! i then 0 else points_by_position e ! k)"
proof -
  from assms(3) have "i \<in> set (rank_order grid_core grid_dnf noise)"
    by (simp add: set_rank_order)
  then obtain k where k: "index_of (rank_order grid_core grid_dnf noise) i = Some k"
    using index_of_mem by fastforce
  then have "k < length (rank_order grid_core grid_dnf noise)"
    using index_of_SomeD by fastforce
  then have kl: "k < length grid_core" by (simp add: rank_order_def)
  with assms(2) have "py_index (points_by_position e) (int (k + 1) - 1)
                      = Inr (points_by_position e ! k)"
    by (simp add: py_index_def)
  with k kl assms(1) show ?thesis
    by (simp add: rank_and_points_def Let_def)
qed

lemma rank_and_points_less:
  assumes len: "length grid_core \<le> length grid_dnf"
    and tab: "length grid_core \<le> length (points_by_position e)"
    and i: "i < length grid_core" and j: "j < length grid_core"
    and key: "(grid_dnf ! i, - (grid_core ! i + noise i)) < (grid_dnf ! j, - (grid_core ! j + noise j))"
  shows "\<exists>p q s t. rank_and_points e grid_core grid_dnf noise i = Inr (p, s)
            \<and> rank_and_points e grid_core grid_dnf noise j = Inr (q, t) \<and> p < q"
proof -
  let ?ord = "rank_order grid_core grid_dnf noise"
  from i j have "i \<in> set ?ord" "j \<in> set ?ord" by (simp_all add: set_rank_order)
  with index_of_sorted_less [OF sorted_rank_order _ _ key]
  obtain a b where ab: "index_of ?ord i = Some a" "index_of ?ord j = Some b" "a < b"
    by blast
  from rank_and_points_Inr [OF len tab i, of noise] ab(1)
  have "rank_and_points e grid_core grid_dnf noise i
          = Inr (a + 1, if grid_dnf ! i then 0 else points_by_position e ! a)" by simp
  moreover from rank_and_points_Inr [OF len tab j, of noise] ab(2)
  have "rank_and_points e grid_core grid_dnf noise j
          = Inr (b + 1, if grid_dnf ! j then 0 else points_by_position e ! b)" by simp
  ultimately show ?thesis using ab(3) by simp
qed

subsection \<open>One call of step\<close>

lemma py_index_nat:
  "0 \<le> i \<Longrightarrow> i < int (length xs) \<Longrightarrow> py_index xs i = Inr (xs ! nat i)"
  by (simp add: py_index_def)

lemma effective_stats_lengths:
  assumes "effective_stats e ttype req bc bm action = Inr s"
  shows "length (opp_core_eff s) = length (opponents_df e)"
    and "length (opp_dnf s) = length (opponents_df e)"
    and "length (opp_max_eff s) = length (opponents_df e)"
  using assms
  by (auto simp: effective_stats_def float64_add_scalar_def int64_add_scalar_def Let_def
           split: sum.splits prod.splits if_splits)

lemma effective_stats_for_car_Inl:
  assumes "0 \<le> action" and "action < int (length (actions_catalog e))"
    and "effective_stats_for_car e base_core base_max ttype bc bm action = Inl err"
  shows "err = OverflowError"
  using assms
  by (auto simp: effective_stats_for_car_def upgrade_applies_on_track_def py_index_nat
                 float_of_int_def Let_def
           split: sum.splits if_splits)

lemma effective_stats_Inl:
  assumes "0 \<le> action" and "action < int (length (actions_catalog e))"
    and "effective_stats e ttype req bc bm action = Inl err"
  shows "err = OverflowError"
proof (cases "effective_stats_for_car e (core_power (agent_car e)) (max_laps (agent_car e))
                ttype bc bm action")
  case (Inl x)
  with assms(3) have "x = err" by (simp add: effective_stats_def Let_def)
  with effective_stats_for_car_Inl [OF assms(1,2) Inl] show ?thesis by simp
next
  case (Inr t)
  with assms(3) show ?thesis
    by (auto simp: effective_stats_def float64_add_scalar_def int64_add_scalar_def
                   float_of_int_def Let_def
             split: sum.splits prod.splits if_splits)
qed

lemma step_invalid:
  "\<not> (0 \<le> action \<and> action < n_actions e) \<Longrightarrow> step action noise e = (Inl InvalidAction, e)"
  by (simp add: step_def)

lemma track_row_Inl: "track_row e = Inl err \<Longrightarrow> err = TrackIdxOutOfBounds"
  by (simp add: track_row_def split: if_splits)

lemma step_unfold:
  assumes "0 \<le> action" and "action < n_actions e" and "track_row e = Inr tr"
    and "parse_type_bonus (Str (type_bonus tr)) = (bc, bm)"
    and "effective_stats e (track_type tr) (total_laps tr) bc bm action = Inr s"
    and "rank_and_points e (opp_core_eff s @ [agent_core s]) (opp_dnf s @ [agent_dnf s])
           noise (length (opp_core_eff s)) = Inr (pos, pts)"
    and "e2 = e\<lparr>total_reward := total_reward e + real_of_int pts,
                  track_idx := track_idx e + 1\<rparr>"
    and "fin = (int (length (tracks_df e)) \<le> track_idx e + 1)"
    and "obr = (if fin then Inr (replicate (obs_dim e) (Some 0)) else get_obs e2)"
  shows "step action noise e =
      (case obr of
         Inl err \<Rightarrow> (Inl err, e2)
       | Inr ob \<Rightarrow>
           (case py_index (actions_catalog e) action of
              Inl err \<Rightarrow> (Inl err, e2)
            | Inr a \<Rightarrow>
                (Inr \<lparr>obs = ob, reward = real_of_int pts, terminated = fin,
                      truncated = False,
                      info = \<lparr>info_track = track_name tr, info_track_type = track_type tr,
                        info_required_laps = total_laps tr, info_type_bonus_core = bc,
                        info_type_bonus_max = bm, info_action = act_name a,
                        info_agent_effective_core = agent_core s,
                        info_agent_effective_max = agent_max s,
                        info_agent_dnf = agent_dnf s, info_position = pos, info_points = pts,
                        info_episode_return =
                          (if fin then Some (total_reward e + real_of_int pts)
                           else None)\<rparr>\<rparr>, e2)))"
  using assms
  by (cases fin) (simp_all add: step_def Let_def split: sum.splits)

lemma step_InrD:
  assumes "fst (step action noise e) = Inr r"
  shows "\<exists>tr bc bm s pos pts a.
           0 \<le> action \<and> action < n_actions e \<and> track_row e = Inr tr
           \<and> parse_type_bonus (Str (type_bonus tr)) = (bc, bm)
           \<and> effective_stats e (track_type tr) (total_laps tr) bc bm action = Inr s
           \<and> rank_and_points e (opp_core_eff s @ [agent_core s]) (opp_dnf s @ [agent_dnf s])
                 noise (length (opp_core_eff s)) = Inr (pos, pts)
           \<and> py_index (actions_catalog e) action = Inr a
           \<and> reward r = real_of_int pts
           \<and> terminated r = (int (length (tracks_df e)) \<le> track_idx e + 1)
           \<and> info r = \<lparr>info_track = track_name tr, info_track_type = track_type tr,
                        info_required_laps = total_laps tr, info_type_bonus_core = bc,
                        info_type_bonus_max = bm, info_action = act_name a,
                        info_agent_effective_core = agent_core s,
                        info_agent_effective_max = agent_max s,
                        info_agent_dnf = agent_dnf s, info_position = pos, info_points = pts,
                        info_episode_return =
                          (if int (length (tracks_df e)) \<le> track_idx e + 1
                           then Some (total_reward e + real_of_int pts) else None)\<rparr>
           \<and> snd (step action noise e) =
               e\<lparr>total_reward := total_reward e + real_of_int pts,
                  track_idx := track_idx e + 1\<rparr>"
proof -
  have valid: "0 \<le> action" "action < n_actions e"
    using assms by (cases "0 \<le> action \<and> action < n_actions e"; simp add: step_def)+
  obtain tr where tr: "track_row e = Inr tr"
    using assms valid by (cases "track_row e") (simp_all add: step_def)
  obtain bc bm where pb: "parse_type_bonus (Str (type_bonus tr)) = (bc, bm)"
    by (cases "parse_type_bonus (Str (type_bonus tr))") blast
  obtain s where s: "effective_stats e (track_type tr) (total_laps tr) bc bm action = Inr s"
    using assms valid tr pb
    by (cases "effective_stats e (track_type tr) (total_laps tr) bc bm action")
       (simp_all add: step_def)
  obtain pos pts where rp:
    "rank_and_points e (opp_core_eff s @ [agent_core s]) (opp_dnf s @ [agent_dnf s])
       noise (length (opp_core_eff s)) = Inr (pos, pts)"
    using assms valid tr pb s
    by (cases "rank_and_points e (opp_core_eff s @ [agent_core s])
                 (opp_dnf s @ [agent_dnf s]) noise (length (opp_core_eff s))")
       (auto simp: step_def Let_def)
  define e2 where "e2 = e\<lparr>total_reward := total_reward e + real_of_int pts,
                           track_idx := track_idx e + 1\<rparr>"
  define fin where "fin = (int (length (tracks_df e)) \<le> track_idx e + 1)"
  define obr where "obr = (if fin then Inr (replicate (obs_dim e) (Some 0)) else get_obs e2)"
  note unfolded = step_unfold [OF valid tr pb s rp e2_def fin_def obr_def]
  obtain ob where ob: "obr = Inr ob"
    using assms unfolded by (cases obr) simp_all
  obtain a where a: "py_index (actions_catalog e) action = Inr a"
    using assms unfolded ob by (cases "py_index (actions_catalog e) action") simp_all
  from unfolded ob a assms have "reward r = real_of_int pts" "terminated r = fin"
    "snd (step action noise e) = e2"
    "info r = \<lparr>info_track = track_name tr, info_track_type = track_type tr,
                        info_required_laps = total_laps tr, info_type_bonus_core = bc,
                        info_type_bonus_max = bm, info_action = act_name a,
                        info_agent_effective_core = agent_core s,
                        info_agent_effective_max = agent_max s,
                        info_agent_dnf = agent_dnf s, info_position = pos, info_points = pts,
                        info_episode_return =
                          (if fin then Some (total_reward e + real_of_int pts)
                           else None)\<rparr>"
    by auto
  with valid tr pb s rp a show ?thesis
    unfolding e2_def fin_def by blast
qed

lemma step_InrE:
  assumes "fst (step action noise e) = Inr r"
  obtains tr bc bm s pos pts a where
    "0 \<le> action" and "action < n_actions e" and "track_row e = Inr tr"
    and "parse_type_bonus (Str (type_bonus tr)) = (bc, bm)"
    and "effective_stats e (track_type tr) (total_laps tr) bc bm action = Inr s"
    and "rank_and_points e (opp_core_eff s @ [agent_core s]) (opp_dnf s @ [agent_dnf s])
           noise (length (opp_core_eff s)) = Inr (pos, pts)"
    and "py_index (actions_catalog e) action = Inr a"
    and "reward r = real_of_int pts"
    and "terminated r = (int (length (tracks_df e)) \<le> track_idx e + 1)"
    and "info_position (info r) = pos" and "info_points (info r) = pts"
    and "info_agent_dnf (info r) = agent_dnf s"
    and "info_episode_return (info r) =
           (if int (length (tracks_df e)) \<le> track_idx e + 1
            then Some (total_reward e + real_of_int pts) else None)"
    and "snd (step action noise e) =
           e\<lparr>total_reward := total_reward e + real_of_int pts, track_idx := track_idx e + 1\<rparr>"
proof -
  from step_InrD [OF assms] obtain tr bc bm s pos pts a where
    f: "0 \<le> action \<and> action < n_actions e \<and> track_row e = Inr tr
           \<and> parse_type_bonus (Str (type_bonus tr)) = (bc, bm)
           \<and> effective_stats e (track_type tr) (total_laps tr) bc bm action = Inr s
           \<and> rank_and_points e (opp_core_eff s @ [agent_core s]) (opp_dnf s @ [agent_dnf s])
                 noise (length (opp_core_eff s)) = Inr (pos, pts)
           \<and> py_index (actions_catalog e) action = Inr a
           \<and> reward r = real_of_int pts
           \<and> terminated r = (int (length (tracks_df e)) \<le> track_idx e + 1)
           \<and> info r = \<lparr>info_track = track_name tr, info_track_type = track_type tr,
                        info_required_laps = total_laps tr, info_type_bonus_core = bc,
                        info_type_bonus_max = bm, info_action = act_name a,
                        info_agent_effective_core = agent_core s,
                        info_agent_effective_max = agent_max s,
                        info_agent_dnf = agent_dnf s, info_position = pos, info_points = pts,
                        info_episode_return =
                          (if int (length (tracks_df e)) \<le> track_idx e + 1
                           then Some (total_reward e + real_of_int pts) else None)\<rparr>
           \<and> snd (step action noise e) =
               e\<lparr>total_reward := total_reward e + real_of_int pts,
                  track_idx := track_idx e + 1\<rparr>"
    by (elim exE)
  from f have i: "info r = \<lparr>info_track = track_name tr, info_track_type = track_type tr,
                        info_required_laps = total_laps tr, info_type_bonus_core = bc,
                        info_type_bonus_max = bm, info_action = act_name a,
                        info_agent_effective_core = agent_core s,
                        info_agent_effective_max = agent_max s,
                        info_agent_dnf = agent_dnf s, info_position = pos, info_points = pts,
                        info_episode_return =
                          (if int (length (tracks_df e)) \<le> track_idx e + 1
                           then Some (total_reward e + real_of_int pts) else None)\<rparr>"
    by (elim conjE)
  show thesis
  proof (rule that [of tr bc bm s pos pts a])
    show "info_position (info r) = pos" "info_points (info r) = pts"
      "info_agent_dnf (info r) = agent_dnf s"
      "info_episode_return (info r) =
           (if int (length (tracks_df e)) \<le> track_idx e + 1
            then Some (total_reward e + real_of_int pts) else None)"
      by (simp_all add: i)
  qed (use f in \<open>simp_all only:\<close>)
qed

lemma step_state:
  "snd (step action noise e) = e
   \<or> (\<exists>x. snd (step action noise e) =
            e\<lparr>total_reward := total_reward e + x, track_idx := track_idx e + 1\<rparr>)"
proof (cases "0 \<le> action \<and> action < n_actions e")
  case False
  then show ?thesis by (simp add: step_def)
next
  case valid: True
  show ?thesis
  proof (cases "track_row e")
    case (Inl err)
    with valid show ?thesis by (simp add: step_def)
  next
    case tr: (Inr tr)
    obtain bc bm where pb: "parse_type_bonus (Str (type_bonus tr)) = (bc, bm)"
      by (cases "parse_type_bonus (Str (type_bonus tr))") blast
    show ?thesis
    proof (cases "effective_stats e (track_type tr) (total_laps tr) bc bm action")
      case (Inl err)
      with valid tr pb show ?thesis by (simp add: step_def)
    next
      case s: (Inr s)
      show ?thesis
      proof (cases "rank_and_points e (opp_core_eff s @ [agent_core s])
                 (opp_dnf s @ [agent_dnf s]) noise (length (opp_core_eff s))")
        case (Inl err)
        with valid tr pb s show ?thesis by (simp add: step_def Let_def)
      next
        case (Inr pp)
        then obtain pos pts where rp:
          "rank_and_points e (opp_core_eff s @ [agent_core s]) (opp_dnf s @ [agent_dnf s])
             noise (length (opp_core_eff s)) = Inr (pos, pts)"
          by (cases pp) simp
        from valid have v: "0 \<le> action" "action < n_actions e" by simp_all
        have "snd (step action noise e) =
                e\<lparr>total_reward := total_reward e + real_of_int pts,
                   track_idx := track_idx e + 1\<rparr>"
          by (simp add: step_unfold [OF v tr pb s rp refl refl refl] split: sum.splits)
        then show ?thesis by blast
      qed
    qed
  qed
qed

subsection \<open>What no call changes, and what the constructor establishes\<close>

lemma step_static: "static (snd (step action noise e)) = static e"
  using step_state [of action noise e] by (auto simp: static_def)

lemma reset_static: "static (snd (reset shuffled e)) = static e"
  by (simp add: reset_def Let_def static_def)

lemma perform_static: "static (snd (perform c e)) = static e"
  by (cases c) (simp_all add: step_static reset_static split: prod.splits sum.splits,
      (metis snd_conv step_static reset_static)+)

lemma run_static: "static (snd (run cs e)) = static e"
  by (induction cs arbitrary: e) (simp_all add: split_beta perform_static)

lemma init_InrD:
  assumes "init tracks cars ups aid points shuffle = Inr e0"
  shows "0 \<le> aid" and "aid < int (length cars)"
    and "tracks_df_original e0 = tracks" and "tracks_df e0 = tracks"
    and "cars_df e0 = cars"
    and "TRACK_TYPES e0 = sort (unique (map track_type tracks))"
    and "agent_car e0 = cars ! nat aid"
    and "opponents_df e0 = take (nat aid) cars @ drop (Suc (nat aid)) cars"
    and "points_by_position e0 =
           (let pts = (case points of None \<Rightarrow> DEFAULT_POINTS_BY_POSITION
                       | Some p \<Rightarrow> if p = [] then DEFAULT_POINTS_BY_POSITION else p)
            in pts @ replicate (length cars - length pts) 0)"
    and "shuffle_tracks_each_reset e0 = shuffle"
    and "actions_catalog e0 = build_actions ups"
    and "n_actions e0 = int (length (build_actions ups))"
    and "obs_dim e0 = length (TRACK_TYPES e0) + 5"
    and "track_idx e0 = 0" and "total_reward e0 = 0"
  using assms
  by (auto simp: init_def Let_def split: if_splits)

lemma reachable_static:
  assumes "init tracks cars ups aid points shuffle = Inr e0" and "e = snd (run calls e0)"
  shows "tracks_df_original e = tracks"
    and "cars_df e = cars"
    and "TRACK_TYPES e = sort (unique (map track_type tracks))"
    and "agent_car e = cars ! nat aid"
    and "opponents_df e = take (nat aid) cars @ drop (Suc (nat aid)) cars"
    and "points_by_position e =
           (let pts = (case points of None \<Rightarrow> DEFAULT_POINTS_BY_POSITION
                       | Some p \<Rightarrow> if p = [] then DEFAULT_POINTS_BY_POSITION else p)
            in pts @ replicate (length cars - length pts) 0)"
    and "shuffle_tracks_each_reset e = shuffle"
    and "actions_catalog e = build_actions ups"
    and "n_actions e = int (length (build_actions ups))"
    and "obs_dim e = length (TRACK_TYPES e) + 5"
proof -
  have "static e = static e0" using assms(2) by (simp add: run_static)
  then have eq: "tracks_df_original e = tracks_df_original e0" "cars_df e = cars_df e0"
    "TRACK_TYPES e = TRACK_TYPES e0" "agent_car e = agent_car e0"
    "opponents_df e = opponents_df e0" "points_by_position e = points_by_position e0"
    "shuffle_tracks_each_reset e = shuffle_tracks_each_reset e0"
    "actions_catalog e = actions_catalog e0" "n_actions e = n_actions e0"
    "obs_dim e = obs_dim e0"
    by (simp_all add: static_def)
  note d = init_InrD [OF assms(1)]
  show "tracks_df_original e = tracks" using eq d by simp
  show "cars_df e = cars" using eq d by simp
  show "TRACK_TYPES e = sort (unique (map track_type tracks))" using eq d by simp
  show "agent_car e = cars ! nat aid" using eq d by simp
  show "opponents_df e = take (nat aid) cars @ drop (Suc (nat aid)) cars" using eq d by simp
  show "points_by_position e =
           (let pts = (case points of None \<Rightarrow> DEFAULT_POINTS_BY_POSITION
                       | Some p \<Rightarrow> if p = [] then DEFAULT_POINTS_BY_POSITION else p)
            in pts @ replicate (length cars - length pts) 0)" using eq(6) d(9) by simp
  show "shuffle_tracks_each_reset e = shuffle" using eq d by simp
  show "actions_catalog e = build_actions ups" using eq d by simp
  show "n_actions e = int (length (build_actions ups))" using eq d by simp
  show "obs_dim e = length (TRACK_TYPES e) + 5" using eq d by simp
qed

lemma init_table:
  assumes "init tracks cars ups aid points shuffle = Inr e0" and "e = snd (run calls e0)"
  shows "length cars \<le> length (points_by_position e)"
    and "Suc (length (opponents_df e)) = length cars"
    and "n_actions e = int (length (actions_catalog e))"
    and "set (TRACK_TYPES e) = track_type ` set tracks"
proof -
  note r = reachable_static [OF assms]
  note d = init_InrD [OF assms(1)]
  show "length cars \<le> length (points_by_position e)"
    by (simp add: r(6) Let_def)
  show "Suc (length (opponents_df e)) = length cars"
    using d(1,2) by (simp add: r(5))
  show "n_actions e = int (length (actions_catalog e))"
    by (simp add: r(8,9))
  show "set (TRACK_TYPES e) = track_type ` set tracks"
    by (simp add: r(3) unique_def)
qed

subsection \<open>When a step returns\<close>

lemma get_obs_Inl: "get_obs e = Inl err \<Longrightarrow> err = TrackIdxOutOfBounds \<or> err = NotInList"
  by (auto simp: get_obs_def track_row_def Let_def split: if_splits option.splits)

lemma get_obs_Inr:
  assumes "0 \<le> track_idx e" and "track_idx e < int (length (tracks_df e))"
    and "\<forall>t \<in> set (tracks_df e). track_type t \<in> set (TRACK_TYPES e)"
  shows "\<exists>ob. get_obs e = Inr ob \<and> length ob = length (TRACK_TYPES e) + 5"
proof -
  let ?tr = "tracks_df e ! nat (track_idx e)"
  from assms(1,2) have "?tr \<in> set (tracks_df e)" by simp
  with assms(3) have "track_type ?tr \<in> set (TRACK_TYPES e)" by blast
  then obtain k where "index_of (TRACK_TYPES e) (track_type ?tr) = Some k"
    using index_of_mem by fastforce
  with assms(1,2) show ?thesis
    by (simp add: get_obs_def track_row_def Let_def)
qed

lemma get_obs_first:
  assumes "0 \<le> track_idx e" and "track_idx e < int (length (tracks_df e))"
    and "\<forall>t \<in> set (tracks_df e). track_type t \<in> set (TRACK_TYPES e)"
  shows "\<exists>ob. get_obs e = Inr ob \<and> length ob = length (TRACK_TYPES e) + 5
           \<and> ob ! 0 = Some (core_power (agent_car e))
           \<and> ob ! (length (TRACK_TYPES e) + 2) =
               Some (real_of_int (total_laps (tracks_df e ! nat (track_idx e))))"
proof -
  let ?tr = "tracks_df e ! nat (track_idx e)"
  from assms(1,2) have "?tr \<in> set (tracks_df e)" by simp
  with assms(3) have "track_type ?tr \<in> set (TRACK_TYPES e)" by blast
  then obtain k where "index_of (TRACK_TYPES e) (track_type ?tr) = Some k"
    using index_of_mem by fastforce
  with assms(1,2) show ?thesis
    by (simp add: get_obs_def track_row_def Let_def nth_append)
qed

lemma step_not_IndexError:
  assumes cat: "n_actions e = int (length (actions_catalog e))"
    and tab: "length (opponents_df e) < length (points_by_position e)"
  shows "fst (step action noise e) \<noteq> Inl IndexError"
proof (cases "0 \<le> action \<and> action < n_actions e")
  case False
  then show ?thesis by (simp add: step_def)
next
  case valid: True
  then have v: "0 \<le> action" "action < n_actions e" by simp_all
  show ?thesis
  proof (cases "track_row e")
    case (Inl err)
    then have "err = TrackIdxOutOfBounds" by (simp add: track_row_def split: if_splits)
    with valid Inl show ?thesis by (simp add: step_def)
  next
    case tr: (Inr tr)
    obtain bc bm where pb: "parse_type_bonus (Str (type_bonus tr)) = (bc, bm)"
      by (cases "parse_type_bonus (Str (type_bonus tr))") blast
    from v cat have len: "action < int (length (actions_catalog e))" by simp
    show ?thesis
    proof (cases "effective_stats e (track_type tr) (total_laps tr) bc bm action")
      case (Inl err)
      from effective_stats_Inl [OF v(1) len Inl] have "err = OverflowError" .
      with valid tr pb Inl show ?thesis by (simp add: step_def)
    next
      case s: (Inr s)
      note sl = effective_stats_lengths [OF s]
      from rank_and_points_Inr [of "opp_core_eff s @ [agent_core s]"
          "opp_dnf s @ [agent_dnf s]" e "length (opp_core_eff s)" noise] sl tab
      obtain pos pts where rp:
        "rank_and_points e (opp_core_eff s @ [agent_core s]) (opp_dnf s @ [agent_dnf s])
           noise (length (opp_core_eff s)) = Inr (pos, pts)"
        by auto
      from v(1) len
      have a: "py_index (actions_catalog e) action = Inr (actions_catalog e ! nat action)"
        by (rule py_index_nat)
      show ?thesis
        using get_obs_Inl
        by (auto simp: step_unfold [OF v tr pb s rp refl refl refl] a
                 split: sum.splits if_splits)
    qed
  qed
qed

lemma step_valid_errors:
  assumes v: "0 \<le> action" "action < n_actions e"
    and cat: "n_actions e = int (length (actions_catalog e))"
    and tab: "length (opponents_df e) < length (points_by_position e)"
    and err: "fst (step action noise e) = Inl err"
  shows "err = TrackIdxOutOfBounds \<or> err = NotInList \<or> err = OverflowError"
proof (cases "track_row e")
  case (Inl x)
  with v err track_row_Inl [OF Inl] show ?thesis by (simp add: step_def)
next
  case tr: (Inr tr)
  obtain bc bm where pb: "parse_type_bonus (Str (type_bonus tr)) = (bc, bm)"
    by (cases "parse_type_bonus (Str (type_bonus tr))") blast
  from v cat have len: "action < int (length (actions_catalog e))" by simp
  show ?thesis
  proof (cases "effective_stats e (track_type tr) (total_laps tr) bc bm action")
    case (Inl x)
    from effective_stats_Inl [OF v(1) len Inl] have "x = OverflowError" .
    with v tr pb Inl err show ?thesis by (simp add: step_def)
  next
    case s: (Inr s)
    note sl = effective_stats_lengths [OF s]
    from rank_and_points_Inr [of "opp_core_eff s @ [agent_core s]"
        "opp_dnf s @ [agent_dnf s]" e "length (opp_core_eff s)" noise] sl tab
    obtain pos pts where rp:
      "rank_and_points e (opp_core_eff s @ [agent_core s]) (opp_dnf s @ [agent_dnf s])
         noise (length (opp_core_eff s)) = Inr (pos, pts)"
      by auto
    from v(1) len
    have a: "py_index (actions_catalog e) action = Inr (actions_catalog e ! nat action)"
      by (rule py_index_nat)
    show ?thesis
      using get_obs_Inl err
      by (auto simp: step_unfold [OF v tr pb s rp refl refl refl] a
               split: sum.splits if_splits)
  qed
qed

subsection \<open>Episodes\<close>

lemma reset_state:
  "snd (reset shuffled e) =
     e\<lparr>tracks_df := (if shuffle_tracks_each_reset e then shuffled else tracks_df_original e),
       track_idx := 0, total_reward := 0\<rparr>"
  "fst (reset shuffled e) = get_obs (snd (reset shuffled e))"
  by (simp_all add: reset_def Let_def)

lemma reset_tracks:
  assumes "init tracks cars ups aid points shuffle = Inr e0" and "e = snd (run calls e0)"
    and "shuffle \<longrightarrow> mset shuffled = mset tracks"
  shows "length (tracks_df (snd (reset shuffled e))) = length tracks"
    and "\<forall>t \<in> set (tracks_df (snd (reset shuffled e))).
           track_type t \<in> set (TRACK_TYPES (snd (reset shuffled e)))"
    and "track_idx (snd (reset shuffled e)) = 0"
    and "total_reward (snd (reset shuffled e)) = 0"
    and "static (snd (reset shuffled e)) = static e"
proof -
  note r = reachable_static [OF assms(1,2)]
  note t = init_table [OF assms(1,2)]
  have df: "tracks_df (snd (reset shuffled e)) = (if shuffle then shuffled else tracks)"
    by (simp add: reset_state r)
  from assms(3) have "shuffle \<longrightarrow> length shuffled = length tracks"
    by (auto dest: mset_eq_length)
  then show "length (tracks_df (snd (reset shuffled e))) = length tracks"
    by (simp add: df)
  from assms(3) have "shuffle \<longrightarrow> set shuffled = set tracks"
    by (auto dest: mset_eq_setD)
  then have "set (tracks_df (snd (reset shuffled e))) = set tracks"
    by (simp add: df)
  moreover have "TRACK_TYPES (snd (reset shuffled e)) = TRACK_TYPES e"
    by (simp add: reset_state)
  ultimately show "\<forall>t \<in> set (tracks_df (snd (reset shuffled e))).
           track_type t \<in> set (TRACK_TYPES (snd (reset shuffled e)))"
    by (simp add: t(4))
  show "track_idx (snd (reset shuffled e)) = 0" "total_reward (snd (reset shuffled e)) = 0"
    by (simp_all add: reset_state)
  show "static (snd (reset shuffled e)) = static e" by (rule reset_static)
qed

subsection \<open>The example environments\<close>

lemma demo_env_init:
  "init demo_tracks demo_cars (Some demo_upgrades) 0 None False = Inr demo_env"
  by (simp add: demo_env_def init_def Let_def demo_cars_def)

lemma demo_points: "points_by_position demo_env = [25, 18, 15, 12, 10, 8, 6, 4, 2, 1]"
  by (simp add: demo_env_def init_def Let_def demo_cars_def DEFAULT_POINTS_BY_POSITION_def)

lemma demo_fields:
  "actions_catalog demo_env =
     [\<lparr>act_name = ''No Upgrade'', add_core = 0, add_max = 0, cond = {}\<rparr>,
      \<lparr>act_name = ''Upgrade 01'', add_core = 20, add_max = 0, cond = {}\<rparr>,
      \<lparr>act_name = ''Upgrade 04'', add_core = 20, add_max = 10, cond = {''Sunny'', ''Night''}\<rparr>,
      \<lparr>act_name = ''Upgrade 07'', add_core = 40, add_max = 5, cond = {''Night''}\<rparr>]"
  "n_actions demo_env = 4"
  "agent_car demo_env = \<lparr>car_name = ''Car 01'', core_power = 300, max_laps = 50,
       car_track_types = {''Sunny''}\<rparr>"
  "opponents_df demo_env =
     [\<lparr>car_name = ''Car 09'', core_power = 320, max_laps = 50, car_track_types = {}\<rparr>,
      \<lparr>car_name = ''Car 11'', core_power = 300, max_laps = 40,
       car_track_types = {''Sunny'', ''Night''}\<rparr>]"
  "tracks_df demo_env = demo_tracks" "tracks_df_original demo_env = demo_tracks"
  "track_idx demo_env = 0" "total_reward demo_env = 0"
  "shuffle_tracks_each_reset demo_env = False"
  by (simp_all add: demo_env_def init_def Let_def demo_cars_def demo_upgrades_def
        build_actions_def)

lemma demo_track_types: "TRACK_TYPES demo_env = [''Night'', ''Sunny'']"
proof -
  have "sort (unique (map track_type demo_tracks)) = [''Night'', ''Sunny'']"
    by code_simp
  then show ?thesis
    by (simp add: demo_env_def init_def Let_def demo_cars_def)
qed

lemma short_table_env_init:
  "init demo_tracks demo_cars (Some demo_upgrades) 0 (Some [10]) False = Inr short_table_env"
  by (simp add: short_table_env_def init_def Let_def demo_cars_def)

subsection \<open>C1: effective stats\<close>

text \<open>
  C1 says that on every step every competitor's effective max laps equal its base max
  laps plus the track's max-laps bonus. The opponents' sum is taken in a 64-bit array and
  wraps: on a track whose bonus is \<open>9223372036854775807\<close> max laps the agent, with 50
  base laps, has \<open>9223372036854775857\<close> effective laps, while the opponents, with 50
  and 40 base laps, are given \<open>-9223372036854775759\<close> and \<open>-9223372036854775769\<close>.
\<close>

theorem opponent_max_laps_wrap:
  "parse_type_bonus (Str (type_bonus (wrap_tracks ! 0))) = (0, 9223372036854775807)
   \<and> map max_laps (opponents_df wrap_env) = [50, 40]
   \<and> max_laps (agent_car wrap_env) = 50
   \<and> (case effective_stats wrap_env ''Sunny'' 50 0 9223372036854775807 0 of
         Inl err \<Rightarrow> False
       | Inr s \<Rightarrow> agent_max s = 9223372036854775857
                  \<and> opp_max_eff s = [- 9223372036854775759, - 9223372036854775769])"
  by code_simp

subsection \<open>C2: who does not finish\<close>


subsection \<open>C3: competitors that do not finish rank last\<close>

text \<open>
  C3: the resolver is called on a grid of effective core powers and DNF flags of equal
  length, with a points table at least as long as the grid (as the constructor pads it).
  Resolved for a competitor \<open>j\<close> that finishes and for a competitor \<open>i\<close> that does not,
  it returns a position for each, and the position of \<open>j\<close> is strictly smaller than the
  position of \<open>i\<close>, whatever the core powers and whatever the perturbation drawn.
\<close>

theorem dnf_ranks_below_finishers:
  assumes "length grid_dnf = length grid_core"
    and "length grid_core \<le> length (points_by_position e)"
    and "i < length grid_core" and "j < length grid_core"
    and "grid_dnf ! i" and "\<not> grid_dnf ! j"
  shows "\<exists>p q s t. rank_and_points e grid_core grid_dnf noise j = Inr (p, s)
            \<and> rank_and_points e grid_core grid_dnf noise i = Inr (q, t) \<and> p < q"
proof -
  from assms(5,6)
  have "(grid_dnf ! j, - (grid_core ! j + noise j)) < (grid_dnf ! i, - (grid_core ! i + noise i))"
    by simp
  with assms(1-4) show ?thesis
    by (intro rank_and_points_less) simp_all
qed

theorem dnf_ranks_below_finishers_witness:
  "rank_and_points demo_env [350, 330, 900] [False, False, True] no_noise 1 = Inr (2, 18)
   \<and> rank_and_points demo_env [350, 330, 900] [False, False, True] no_noise 2 = Inr (3, 0)"
proof -
  have "\<exists>p q s t. rank_and_points demo_env [350, 330, 900] [False, False, True] no_noise 1 = Inr (p, s)
            \<and> rank_and_points demo_env [350, 330, 900] [False, False, True] no_noise 2 = Inr (q, t) \<and> p < q"
    using dnf_ranks_below_finishers [of "[False, False, True]" "[350, 330, 900]" demo_env 2 1 no_noise]
    by (simp add: demo_points)
  moreover have "rank_and_points demo_env [350, 330, 900] [False, False, True] no_noise 1 = Inr (2, 18)"
    by (simp add: rank_and_points_def rank_order_def no_noise_def demo_points py_index_def upt_rec)
  moreover have "rank_and_points demo_env [350, 330, 900] [False, False, True] no_noise 2 = Inr (3, 0)"
    by (simp add: rank_and_points_def rank_order_def no_noise_def demo_points py_index_def upt_rec)
  ultimately show ?thesis by simp
qed

subsection \<open>C4: the agent's points\<close>

text \<open>
  C4, as stated, fails for an empty points table: \<^verbatim>\<open>points_by_position or DEFAULT\<close>
  takes the default table in its place, so with three cars and the table \<^verbatim>\<open>[]\<close> the
  agent, second and not DNF, is awarded 18 points at a position beyond the length of the
  table that was supplied.
\<close>

theorem empty_points_table_counterexample:
  "case init demo_tracks demo_cars (Some demo_upgrades) 0 (Some []) False of
     Inl err \<Rightarrow> False
   | Inr e \<Rightarrow>
       (case fst (step 0 no_noise e) of
          Inl err \<Rightarrow> False
        | Inr r \<Rightarrow> \<not> info_agent_dnf (info r) \<and> info_position (info r) = 2
                   \<and> length ([] :: int list) < info_position (info r)
                   \<and> info_points (info r) = 18)"
  by code_simp

text \<open>
  C4, amended: the table in use is the supplied points table, or the default table when
  none is supplied or the supplied one is empty, followed by zeros up to the number of
  cars when it is shorter than that (it is never truncated). The agent's points on a
  step are 0 if its DNF flag is set and otherwise the entry of that table at its 1-based
  position, which lies within the table; a position beyond the length of the table
  before padding awards 0. The reward is the points.
\<close>

theorem agent_points:
  assumes "init tracks cars ups aid points shuffle = Inr e0" and "e = snd (run calls e0)"
    and "fst (step action noise e) = Inr r"
    and "given = (case points of None \<Rightarrow> DEFAULT_POINTS_BY_POSITION
                  | Some p \<Rightarrow> if p = [] then DEFAULT_POINTS_BY_POSITION else p)"
  shows "points_by_position e = given @ replicate (length cars - length given) 0
         \<and> 1 \<le> info_position (info r)
         \<and> info_position (info r) \<le> length (points_by_position e)
         \<and> info_points (info r) =
             (if info_agent_dnf (info r) then 0
              else points_by_position e ! (info_position (info r) - 1))
         \<and> reward r = real_of_int (info_points (info r))
         \<and> (\<not> info_agent_dnf (info r) \<and> length given < info_position (info r)
              \<longrightarrow> info_points (info r) = 0)"
  using assms(3)
proof (rule step_InrE)
  fix tr bc bm s pos pts
  assume v: "0 \<le> action" "action < n_actions e"
    and s: "effective_stats e (track_type tr) (total_laps tr) bc bm action = Inr s"
    and rp: "rank_and_points e (opp_core_eff s @ [agent_core s]) (opp_dnf s @ [agent_dnf s])
               noise (length (opp_core_eff s)) = Inr (pos, pts)"
    and i: "info_position (info r) = pos" "info_points (info r) = pts"
           "info_agent_dnf (info r) = agent_dnf s"
    and rew: "reward r = real_of_int pts"
  note t = init_table [OF assms(1,2)]
  have tab: "points_by_position e = given @ replicate (length cars - length given) 0"
    using reachable_static(6) [OF assms(1,2)] assms(4) by (simp add: Let_def)
  note sl = effective_stats_lengths [OF s]
  from rank_and_points_Inr [of "opp_core_eff s @ [agent_core s]" "opp_dnf s @ [agent_dnf s]"
      e "length (opp_core_eff s)" noise] sl t(1,2) rp
  obtain k where k: "k < length cars" "pos = k + 1"
    "pts = (if (opp_dnf s @ [agent_dnf s]) ! length (opp_core_eff s) then 0
            else points_by_position e ! k)"
    by auto
  have flag: "(opp_dnf s @ [agent_dnf s]) ! length (opp_core_eff s) = agent_dnf s"
    using sl by (simp add: nth_append)
  have beyond: "points_by_position e ! k = 0" if "length given \<le> k"
    using that k(1) by (simp add: tab nth_append)
  from k flag i rew tab beyond t(1) show ?thesis by auto
qed

theorem agent_points_witness:
  "points_by_position short_table_env = [10, 0, 0]
   \<and> (\<exists>r. fst (step 0 no_noise short_table_env) = Inr r
          \<and> \<not> info_agent_dnf (info r) \<and> info_position (info r) = 2
          \<and> info_points (info r) = 0 \<and> reward r = 0)"
proof -
  have run0: "short_table_env = snd (run [] short_table_env)" by simp
  have "case fst (step 0 no_noise short_table_env) of
          Inl err \<Rightarrow> False
        | Inr r \<Rightarrow> \<not> info_agent_dnf (info r) \<and> info_position (info r) = 2"
    by code_simp
  then obtain r where r: "fst (step 0 no_noise short_table_env) = Inr r"
    "\<not> info_agent_dnf (info r)" "info_position (info r) = 2"
    by (cases "fst (step 0 no_noise short_table_env)") auto
  have three: "length demo_cars = 3" by (simp add: demo_cars_def)
  from agent_points [OF short_table_env_init run0 r(1) refl] r(2,3) three
  have "points_by_position short_table_env = [10, 0, 0]"
    "info_points (info r) = 0" "reward r = 0"
    by (simp_all add: numeral_3_eq_3)
  with r show ?thesis by blast
qed

subsection \<open>C5: the order within a partition\<close>

text \<open>
  C5, as stated, fails: the perturbation is added to every competitor's core power before
  the comparison, so it can reverse two competitors whose core powers differ by less
  than the perturbations do. Two finishers with core powers \<open>300\<close> and \<open>300.000001\<close>
  and perturbations \<open>0.000002\<close> and \<open>0\<close>: the one with the lower core power is
  ranked first.
\<close>

theorem noise_reorders_counterexample:
  "[300, 300.000001 :: real] ! 0 < [300, 300.000001] ! 1
   \<and> rank_and_points demo_env [300, 300.000001] [False, False]
         (\<lambda>i. if i = 0 then 0.000002 else 0) 0 = Inr (1, 25)
   \<and> rank_and_points demo_env [300, 300.000001] [False, False]
         (\<lambda>i. if i = 0 then 0.000002 else 0) 1 = Inr (2, 18)"
  by (simp add: rank_and_points_def rank_order_def demo_points py_index_def upt_rec)

text \<open>
  C5, amended: within a partition (two competitors with the same DNF flag) the order is
  by perturbed core power, descending: the competitor whose effective core power plus
  its own perturbation is strictly higher receives the better position. A strictly
  higher effective core power therefore wins whenever the difference of the core powers
  exceeds the difference of the two perturbations.
\<close>

theorem perturbed_core_orders_partition:
  assumes "length grid_dnf = length grid_core"
    and "length grid_core \<le> length (points_by_position e)"
    and "i < length grid_core" and "j < length grid_core"
    and "grid_dnf ! i = grid_dnf ! j"
    and "grid_core ! j + noise j < grid_core ! i + noise i"
  shows "\<exists>p q s t. rank_and_points e grid_core grid_dnf noise i = Inr (p, s)
            \<and> rank_and_points e grid_core grid_dnf noise j = Inr (q, t) \<and> p < q"
proof -
  from assms(5,6)
  have "(grid_dnf ! i, - (grid_core ! i + noise i)) < (grid_dnf ! j, - (grid_core ! j + noise j))"
    by simp
  with assms(1-4) show ?thesis
    by (intro rank_and_points_less) simp_all
qed

theorem perturbed_core_orders_partition_witness:
  "rank_and_points demo_env [350, 330, 900] [False, False, True] no_noise 0 = Inr (1, 25)
   \<and> rank_and_points demo_env [350, 330, 900] [False, False, True] no_noise 1 = Inr (2, 18)"
proof -
  have "\<exists>p q s t. rank_and_points demo_env [350, 330, 900] [False, False, True] no_noise 0 = Inr (p, s)
            \<and> rank_and_points demo_env [350, 330, 900] [False, False, True] no_noise 1 = Inr (q, t) \<and> p < q"
    using perturbed_core_orders_partition [of "[False, False, True]" "[350, 330, 900]" demo_env 0 1 no_noise]
    by (simp add: demo_points no_noise_def)
  moreover have "rank_and_points demo_env [350, 330, 900] [False, False, True] no_noise 0 = Inr (1, 25)"
    by (simp add: rank_and_points_def rank_order_def no_noise_def demo_points py_index_def upt_rec)
  moreover have "rank_and_points demo_env [350, 330, 900] [False, False, True] no_noise 1 = Inr (2, 18)"
    by (simp add: rank_and_points_def rank_order_def no_noise_def demo_points py_index_def upt_rec)
  ultimately show ?thesis by simp
qed

subsection \<open>C6: one step per track\<close>

text \<open>
  C6 says that after reset, on a sequence of \<open>N \<ge> 1\<close> tracks, the first \<open>N\<close> steps
  with valid actions succeed. On the one track whose bonus is \<open>9223372036854775808\<close>
  max laps, reset returns an observation and the first step, with the valid action 0,
  fails: the bonus cannot be added to the opponents' 64-bit array. The cursor stays 0.
\<close>

theorem overflow_step_fails:
  "length (tracks_df overflow_env) = 1 \<and> 0 < n_actions overflow_env
   \<and> (case fst (reset [] overflow_env) of Inl err \<Rightarrow> False | Inr ob \<Rightarrow> True)
   \<and> (case fst (step 0 no_noise (snd (reset [] overflow_env))) of
         Inl err \<Rightarrow> err = OverflowError
       | Inr r \<Rightarrow> False)
   \<and> track_idx (snd (step 0 no_noise (snd (reset [] overflow_env)))) = 0"
  by code_simp

subsection \<open>C7: an action out of range\<close>

text \<open>
  C7: in an environment built by the constructor, after any calls, the number of actions
  is one more than the number of upgrade rows (one when there is no upgrade table); a
  step fails with the action-range error if and only if the action lies outside
  \<open>[0, n_actions)\<close>; and such a failure returns the object unchanged, the cursor and
  the accumulated return with it.
\<close>

theorem invalid_action_rejected:
  assumes "init tracks cars ups aid points shuffle = Inr e0" and "e = snd (run calls e0)"
  shows "n_actions e = 1 + (case ups of None \<Rightarrow> 0 | Some rows \<Rightarrow> int (length rows))
         \<and> (fst (step action noise e) = Inl InvalidAction
              \<longleftrightarrow> \<not> (0 \<le> action \<and> action < n_actions e))
         \<and> (fst (step action noise e) = Inl InvalidAction \<longrightarrow> snd (step action noise e) = e)"
proof -
  note t = init_table [OF assms]
  note r = reachable_static [OF assms]
  have n: "n_actions e = 1 + (case ups of None \<Rightarrow> 0 | Some rows \<Rightarrow> int (length rows))"
    by (simp add: r(9) build_actions_def Let_def split: option.splits)
  have iff: "fst (step action noise e) = Inl InvalidAction
              \<longleftrightarrow> \<not> (0 \<le> action \<and> action < n_actions e)"
  proof
    assume inv: "fst (step action noise e) = Inl InvalidAction"
    show "\<not> (0 \<le> action \<and> action < n_actions e)"
    proof
      assume "0 \<le> action \<and> action < n_actions e"
      then have "InvalidAction = TrackIdxOutOfBounds \<or> InvalidAction = NotInList
                   \<or> InvalidAction = OverflowError"
        using t(1,2) by (intro step_valid_errors [OF _ _ t(3) _ inv]) simp_all
      then show False by simp
    qed
  next
    assume "\<not> (0 \<le> action \<and> action < n_actions e)"
    then show "fst (step action noise e) = Inl InvalidAction"
      by (simp add: step_invalid)
  qed
  have "snd (step action noise e) = e" if "fst (step action noise e) = Inl InvalidAction"
    using that iff by (simp add: step_invalid)
  with n iff show ?thesis by blast
qed

theorem invalid_action_rejected_witness:
  "n_actions demo_env = 4
   \<and> step 4 no_noise demo_env = (Inl InvalidAction, demo_env)
   \<and> step (- 1) no_noise demo_env = (Inl InvalidAction, demo_env)
   \<and> fst (step 3 no_noise demo_env) \<noteq> Inl InvalidAction"
proof -
  have run0: "demo_env = snd (run [] demo_env)" by simp
  have three: "length demo_upgrades = 3" by (simp add: demo_upgrades_def)
  from invalid_action_rejected [OF demo_env_init run0, of 4 no_noise]
    invalid_action_rejected [OF demo_env_init run0, of "- 1" no_noise]
    invalid_action_rejected [OF demo_env_init run0, of 3 no_noise] three
  show ?thesis by (simp add: prod_eq_iff)
qed

subsection \<open>C8: the type-bonus parser\<close>

text \<open>
  C8, as stated, fails: the cell \<^verbatim>\<open>30 Core\<close> has two tokens, so it is not of the form
  \<^verbatim>\<open><integer> <"Core"|"Max"> <"Power"|"Laps">\<close>, yet the parser returns the bonus pair
  \<open>(30, 0)\<close> for it and not the zero pair.
\<close>

theorem parse_type_bonus_grammar_counterexample:
  "\<not> type_bonus_grammar ''30 Core'' \<and> parse_type_bonus (Str ''30 Core'') = (30, 0)"
  by code_simp

text \<open>
  C8, amended: the parser never fails and looks only at the whitespace-separated tokens
  of the cell. A cell \<^verbatim>\<open><integer> Core Power\<close> gives \<open>(value, 0)\<close> and a cell
  \<^verbatim>\<open><integer> Max Laps\<close> gives \<open>(0, value)\<close>. In general, when the first token reads as
  the integer \<open>v\<close>, the result is \<open>(v, 0)\<close> if the token \<^verbatim>\<open>Core\<close> occurs among the
  later tokens, else \<open>(0, v)\<close> if \<^verbatim>\<open>Max\<close> occurs among them, else the zero pair. The
  zero pair is also the result for a cell that is not a string, for a blank cell and for a
  cell whose first token does not read as an integer.
\<close>

theorem parse_type_bonus_permissive:
  "(\<forall>n v. py_split c = [n, ''Core'', ''Power''] \<and> py_int n = Some v
        \<longrightarrow> parse_type_bonus (Str c) = (v, 0))
   \<and> (\<forall>n v. py_split c = [n, ''Max'', ''Laps''] \<and> py_int n = Some v
        \<longrightarrow> parse_type_bonus (Str c) = (0, v))
   \<and> (\<forall>p rest v. py_split c = p # rest \<and> py_int p = Some v
        \<longrightarrow> parse_type_bonus (Str c) =
              (if ''Core'' \<in> set rest then (v, 0)
               else if ''Max'' \<in> set rest then (0, v) else (0, 0)))
   \<and> (py_split c = [] \<or> py_int (hd (py_split c)) = None
        \<or> (''Core'' \<notin> set (tl (py_split c)) \<and> ''Max'' \<notin> set (tl (py_split c)))
        \<longrightarrow> parse_type_bonus (Str c) = (0, 0))
   \<and> parse_type_bonus NotStr = (0, 0)"
proof (intro conjI)
  show "parse_type_bonus NotStr = (0, 0)"
    by (simp add: parse_type_bonus_def)
  show "py_split c = [] \<or> py_int (hd (py_split c)) = None
        \<or> (''Core'' \<notin> set (tl (py_split c)) \<and> ''Max'' \<notin> set (tl (py_split c)))
        \<longrightarrow> parse_type_bonus (Str c) = (0, 0)"
    by (cases "py_split c") (auto simp: parse_type_bonus_tokens split: option.splits)
qed (simp_all add: parse_type_bonus_tokens)

theorem parse_type_bonus_permissive_witness:
  "parse_type_bonus (Str ''30 Core Power'') = (30, 0)
   \<and> parse_type_bonus (Str ''20 Max Laps'') = (0, 20)
   \<and> parse_type_bonus (Str ''7 laps on Max'') = (0, 7)
   \<and> parse_type_bonus (Str ''fast Core Power'') = (0, 0)"
proof -
  have a: "py_split ''30 Core Power'' = [''30'', ''Core'', ''Power''] \<and> py_int ''30'' = Some 30"
    by code_simp
  have b: "py_split ''20 Max Laps'' = [''20'', ''Max'', ''Laps''] \<and> py_int ''20'' = Some 20"
    by code_simp
  have c: "py_split ''7 laps on Max'' = ''7'' # [''laps'', ''on'', ''Max'']
           \<and> py_int ''7'' = Some 7"
    by code_simp
  have d: "py_int (hd (py_split ''fast Core Power'')) = None"
    by code_simp
  show ?thesis
    using a b c d parse_type_bonus_permissive [of "''30 Core Power''"]
      parse_type_bonus_permissive [of "''20 Max Laps''"]
      parse_type_bonus_permissive [of "''7 laps on Max''"]
      parse_type_bonus_permissive [of "''fast Core Power''"]
    by simp
qed

subsection \<open>C9: reset\<close>

text \<open>
  C9, as stated, fails: on an empty table of tracks reset sets the cursor and the
  return to zero and then reads the current track for the observation, which raises
  the error of \<^verbatim>\<open>_track_row\<close>; it does not return.
\<close>

theorem reset_empty_sequence_counterexample:
  "case init [] demo_cars (Some demo_upgrades) 0 None False of
     Inl err \<Rightarrow> False
   | Inr e \<Rightarrow>
       (case fst (reset [] e) of
          Inl err \<Rightarrow> err = TrackIdxOutOfBounds
        | Inr ob \<Rightarrow> False)"
  by code_simp

text \<open>
  C9, amended: reset sets the cursor and the accumulated return to 0. When the track
  sequence is not empty it succeeds, the sequencer is in progress, and it returns the
  observation of the first track (of the environment's observation length, starting
  with the agent's base core power and holding the first track's required laps). When
  the track sequence is empty the cursor equals the length of the sequence (the
  sequencer is done) and reset fails with the error of \<^verbatim>\<open>_track_row\<close>.
\<close>

theorem reset_outcome:
  assumes "init tracks cars ups aid points shuffle = Inr e0" and "e = snd (run calls e0)"
    and "shuffle \<longrightarrow> mset shuffled = mset tracks"
  shows "track_idx (snd (reset shuffled e)) = 0 \<and> total_reward (snd (reset shuffled e)) = 0
         \<and> (tracks \<noteq> [] \<longrightarrow>
              phase (snd (reset shuffled e)) = InProgress
              \<and> (\<exists>ob. fst (reset shuffled e) = Inr ob \<and> length ob = obs_dim e
                    \<and> ob ! 0 = Some (core_power (agent_car e))
                    \<and> ob ! (length (TRACK_TYPES e) + 2) =
                        Some (real_of_int (total_laps (hd (tracks_df (snd (reset shuffled e))))))))
         \<and> (tracks = [] \<longrightarrow>
              phase (snd (reset shuffled e)) = Done
              \<and> fst (reset shuffled e) = Inl TrackIdxOutOfBounds)"
proof -
  let ?e' = "snd (reset shuffled e)"
  note rt = reset_tracks [OF assms]
  note r = reachable_static [OF assms(1,2)]
  have tt: "TRACK_TYPES ?e' = TRACK_TYPES e" "agent_car ?e' = agent_car e"
    by (simp_all add: reset_state)
  have a: "phase ?e' = InProgress
           \<and> (\<exists>ob. fst (reset shuffled e) = Inr ob \<and> length ob = obs_dim e
                    \<and> ob ! 0 = Some (core_power (agent_car e))
                    \<and> ob ! (length (TRACK_TYPES e) + 2) =
                        Some (real_of_int (total_laps (hd (tracks_df ?e')))))"
    if "tracks \<noteq> []"
  proof -
    from that rt(1,3) have idx: "0 \<le> track_idx ?e'" "track_idx ?e' < int (length (tracks_df ?e'))"
      by simp_all
    from that rt(1) have "tracks_df ?e' \<noteq> []" by auto
    then have hd: "tracks_df ?e' ! nat (track_idx ?e') = hd (tracks_df ?e')"
      by (simp add: rt(3) hd_conv_nth)
    from get_obs_first [OF idx rt(2)] hd show ?thesis
      using idx by (simp add: reset_state(2) phase_def tt r(10))
  qed
  have b: "phase ?e' = Done \<and> fst (reset shuffled e) = Inl TrackIdxOutOfBounds"
    if "tracks = []"
  proof -
    from that rt(1) have "tracks_df ?e' = []" by simp
    then show ?thesis
      by (simp add: reset_state(2) phase_def get_obs_def track_row_def)
  qed
  from a b rt(3,4) show ?thesis by blast
qed

theorem reset_outcome_witness:
  "track_idx (snd (reset [] demo_env)) = 0 \<and> total_reward (snd (reset [] demo_env)) = 0
   \<and> phase (snd (reset [] demo_env)) = InProgress
   \<and> (\<exists>ob. fst (reset [] demo_env) = Inr ob \<and> length ob = 7 \<and> ob ! 0 = Some 300
          \<and> ob ! 4 = Some 50)"
proof -
  have run0: "demo_env = snd (run [] demo_env)" by simp
  have ne: "demo_tracks \<noteq> []" by (simp add: demo_tracks_def)
  have df: "tracks_df (snd (reset [] demo_env)) = demo_tracks"
    by (simp add: reset_state demo_fields)
  have od: "obs_dim demo_env = 7"
    using reachable_static(10) [OF demo_env_init run0] by (simp add: demo_track_types)
  from reset_outcome [OF demo_env_init run0, of "[]"] ne
  show ?thesis
    by (simp add: df od demo_fields demo_track_types eval_nat_numeral)
       (simp add: demo_tracks_def)
qed

subsection \<open>C10: the points lookup stays in bounds\<close>

text \<open>
  C10: in an environment built by the constructor, after any calls, the points table is
  at least as long as the table of cars; no step fails on an index out of range; the
  position a step reports lies between 1 and the number of cars; and the resolver, on
  any grid of as many competitors as there are cars, returns a position in that range
  with its points.
\<close>

theorem points_lookup_in_bounds:
  assumes "init tracks cars ups aid points shuffle = Inr e0" and "e = snd (run calls e0)"
  shows "length cars \<le> length (points_by_position e)
         \<and> fst (step action noise e) \<noteq> Inl IndexError
         \<and> (\<forall>r. fst (step action noise e) = Inr r \<longrightarrow>
               1 \<le> info_position (info r) \<and> info_position (info r) \<le> length cars)
         \<and> (\<forall>grid_core grid_dnf i. length grid_core = length cars
               \<and> length grid_dnf = length cars \<and> i < length cars \<longrightarrow>
               (\<exists>pos pts. rank_and_points e grid_core grid_dnf noise i = Inr (pos, pts)
                   \<and> 1 \<le> pos \<and> pos \<le> length cars))"
proof -
  note t = init_table [OF assms]
  have a: "length cars \<le> length (points_by_position e)" by (rule t(1))
  have b: "fst (step action noise e) \<noteq> Inl IndexError"
    using t(1,2) by (intro step_not_IndexError t(3)) simp
  have c: "1 \<le> info_position (info r) \<and> info_position (info r) \<le> length cars"
    if "fst (step action noise e) = Inr r" for r
    using that
  proof (rule step_InrE)
    fix tr bc bm s pos pts
    assume v: "0 \<le> action" "action < n_actions e"
      and s: "effective_stats e (track_type tr) (total_laps tr) bc bm action = Inr s"
      and rp: "rank_and_points e (opp_core_eff s @ [agent_core s]) (opp_dnf s @ [agent_dnf s])
                 noise (length (opp_core_eff s)) = Inr (pos, pts)"
      and p: "info_position (info r) = pos"
    note sl = effective_stats_lengths [OF s]
    from rank_and_points_Inr [of "opp_core_eff s @ [agent_core s]" "opp_dnf s @ [agent_dnf s]"
        e "length (opp_core_eff s)" noise] sl t(1,2) rp
    have "1 \<le> pos \<and> pos \<le> length cars" by auto
    with p show ?thesis by simp
  qed
  have d: "\<exists>pos pts. rank_and_points e grid_core grid_dnf noise i = Inr (pos, pts)
           \<and> 1 \<le> pos \<and> pos \<le> length cars"
    if "length grid_core = length cars \<and> length grid_dnf = length cars \<and> i < length cars"
    for grid_core grid_dnf i
    using rank_and_points_Inr [of grid_core grid_dnf e i noise] that t(1) by auto
  from a b c d show ?thesis by blast
qed

theorem points_lookup_in_bounds_witness:
  "length demo_cars \<le> length (points_by_position demo_env)
   \<and> fst (step 0 no_noise demo_env) \<noteq> Inl IndexError
   \<and> (\<exists>pos pts. rank_and_points demo_env [350, 330, 900] [False, False, True] no_noise 2
                    = Inr (pos, pts) \<and> 1 \<le> pos \<and> pos \<le> 3)"
proof -
  have run0: "demo_env = snd (run [] demo_env)" by simp
  have three: "length demo_cars = 3" by (simp add: demo_cars_def)
  from points_lookup_in_bounds [OF demo_env_init run0, of 0 no_noise] three
  show ?thesis by simp
qed

end
